theory Spec2Isabelle
  imports Main
begin

section \<open>JavaScript values used by the delegate\<close>

text \<open>
  A field of the delegate, a method argument and a slot of the mapping table can hold
  \<^verbatim>\<open>undefined\<close>, \<^verbatim>\<open>null\<close> or a proper value. The three are kept apart because the
  source tells them apart: \<^verbatim>\<open>_restrictTo\<close> writes \<^verbatim>\<open>null\<close> (a denial), a slot that was
  never written reads \<^verbatim>\<open>undefined\<close>, and both are falsy in \<^verbatim>\<open>transform\<close>.
\<close>

datatype 'a js = Undefined | Null | Val 'a

text \<open>
  Permission levels are strings (\<^verbatim>\<open>Array<string>\<close> in the source's JSDoc), here ASCII
  strings. A string is truthy unless it is empty; \<^verbatim>\<open>undefined\<close> and \<^verbatim>\<open>null\<close> are falsy.
\<close>

fun truthy :: "string js \<Rightarrow> bool" where
  "truthy Undefined = False"
| "truthy Null = False"
| "truthy (Val s) = (s \<noteq> [])"

text \<open>
  \<^verbatim>\<open>this.delegate[x]\<close> turns \<^verbatim>\<open>x\<close> into a property key: \<^verbatim>\<open>undefined\<close> becomes the key
  \<^verbatim>\<open>"undefined"\<close> and \<^verbatim>\<open>null\<close> the key \<^verbatim>\<open>"null"\<close>.
\<close>

fun propertyKey :: "string js \<Rightarrow> string" where
  "propertyKey Undefined = ''undefined''"
| "propertyKey Null = ''null''"
| "propertyKey (Val s) = s"

text \<open>
  \<^verbatim>\<open>Array.prototype.indexOf\<close> on the ranking, with \<open>None\<close> for the result \<^verbatim>\<open>-1\<close>. The
  comparison is strict equality, so \<^verbatim>\<open>undefined\<close> and \<^verbatim>\<open>null\<close> are never found in a
  ranking of strings.
\<close>

fun indexOfStr :: "string list \<Rightarrow> string \<Rightarrow> nat option" where
  "indexOfStr [] x = None"
| "indexOfStr (y # ys) x = (if y = x then Some 0 else map_option Suc (indexOfStr ys x))"

fun indexOf :: "string list \<Rightarrow> string js \<Rightarrow> nat option" where
  "indexOf ranking (Val x) = indexOfStr ranking x"
| "indexOf ranking Undefined = None"
| "indexOf ranking Null = None"

section \<open>Field mappers\<close>

text \<open>
  The three mapper classes live in a module that is not part of the sources at hand; the
  delegate only constructs them and calls their \<^verbatim>\<open>map\<close>. A mapper object is its identity
  (the number of the allocation that made it) and what it was constructed from. Two slots
  hold the same instance when they hold the same identity.
\<close>

datatype ('b, 't) mapperKind =
    PassthroughFieldMapper
  | CustomFieldMapper 'b
  | SubTransformFieldMapper 't string

datatype ('b, 't) fieldMapper = FieldMapper (ident: nat) (kind: "('b, 't) mapperKind")

text \<open>A promise is settled with a value or with a rejection.\<close>

datatype ('v, 'e) promise = Resolved "'v js" | Rejected 'e

section \<open>Accessor names\<close>

datatype selector = SelAtOrAbove | SelWhen | SelRestrictTo

text \<open>The three constants \<^verbatim>\<open>atOrAbove\<close>, \<^verbatim>\<open>when\<close> and \<^verbatim>\<open>restrictTo\<close> at the top of the module.\<close>

fun accessorPrefix :: "selector \<Rightarrow> string" where
  "accessorPrefix SelAtOrAbove = ''atOrAbove''"
| "accessorPrefix SelWhen = ''when''"
| "accessorPrefix SelRestrictTo = ''restrictTo''"

text \<open>
  \<^verbatim>\<open>toUpperCase\<close> and \<^verbatim>\<open>toLowerCase\<close> on ASCII: the 26 letters change case, every other
  character stays.
\<close>

definition toUpperCase :: "char \<Rightarrow> char" where
  "toUpperCase c =
     (case map_of (zip ''abcdefghijklmnopqrstuvwxyz'' ''ABCDEFGHIJKLMNOPQRSTUVWXYZ'') c of
        Some u \<Rightarrow> u
      | None \<Rightarrow> c)"

definition toLowerCase :: "char \<Rightarrow> char" where
  "toLowerCase c =
     (case map_of (zip ''ABCDEFGHIJKLMNOPQRSTUVWXYZ'' ''abcdefghijklmnopqrstuvwxyz'') c of
        Some l \<Rightarrow> l
      | None \<Rightarrow> c)"

text \<open>
  \<^verbatim>\<open>str.charAt(0).toUpperCase() + str.toLowerCase().slice(1)\<close>; \<^verbatim>\<open>charAt(0)\<close> of the empty
  string is the empty string.
\<close>

definition capitalize :: "string \<Rightarrow> string" where
  "capitalize str = map toUpperCase (take 1 str) @ drop 1 (map toLowerCase str)"

definition accessorName :: "selector \<Rightarrow> string \<Rightarrow> string" where
  "accessorName sel permission = accessorPrefix sel @ capitalize permission"

section \<open>The delegate\<close>

datatype error =
    PermissionLvlNotFound
  | InvalidPermissionLvlProvided
  | CannotUseOverwrittenDefaultApi
  | NotAFunction
  | RangeError

text \<open>
  The fields of a \<^verbatim>\<open>FieldMapperDelegate\<close>. \<open>delegate\<close> is the mapping table, read by key;
  a key that was never written reads \<open>Undefined\<close>. The table is modelled by the
  properties the delegate writes: keys that name members of \<^verbatim>\<open>Object.prototype\<close> are
  outside the model. \<open>accessors\<close> are the methods that \<^verbatim>\<open>buildPermissionMethods\<close>
  installs on the instance, by name: the selection they call and the permission they
  close over. \<open>nextIdent\<close> is the allocation counter that gives each new mapper its
  identity.
\<close>

record ('b, 't) FieldMapperDelegate =
  permissionRanking :: "string list"
  defaultPermissionRanking :: bool
  sourceKey :: string
  delegate :: "string \<Rightarrow> ('b, 't) fieldMapper js"
  curPermissionLvl :: "string js"
  alwaysFlag :: "bool js"
  restrictAtOrAbove :: "nat js"
  restrict :: "nat js"
  isList :: "bool js"
  accessors :: "string \<rightharpoonup> selector \<times> string"
  nextIdent :: nat

subsection \<open>Construction and the generated accessors\<close>

definition installAccessors ::
  "string \<Rightarrow> (string \<rightharpoonup> selector \<times> string) \<Rightarrow> (string \<rightharpoonup> selector \<times> string)" where
  "installAccessors permission props =
     props(accessorName SelAtOrAbove permission \<mapsto> (SelAtOrAbove, permission),
           accessorName SelWhen permission \<mapsto> (SelWhen, permission),
           accessorName SelRestrictTo permission \<mapsto> (SelRestrictTo, permission))"

definition buildPermissionMethods ::
  "('b, 't) FieldMapperDelegate \<Rightarrow> ('b, 't) FieldMapperDelegate" where
  "buildPermissionMethods d =
     d\<lparr>accessors := fold installAccessors (permissionRanking d) (accessors d)\<rparr>"

definition setPermissionRanking ::
  "('b, 't) FieldMapperDelegate \<Rightarrow> ('b, 't) FieldMapperDelegate" where
  "setPermissionRanking d = buildPermissionMethods d"

text \<open>
  The loop at the end of the module installs the same three accessors on the prototype
  for each token of the default ranking \<^verbatim>\<open>PermissionRanking\<close>. That constant is imported
  from a module that is not part of the sources at hand, so it is a parameter here.
\<close>

definition prototypeAccessors :: "string list \<Rightarrow> (string \<rightharpoonup> selector \<times> string)" where
  "prototypeAccessors PermissionRanking = fold installAccessors PermissionRanking Map.empty"

text \<open>
  \<^verbatim>\<open>new FieldMapperDelegate(sourceKey, permissionRanking)\<close>; \<open>None\<close> is the omitted
  ranking. An array is truthy even when empty, so every ranking that is given is used.
\<close>

definition constructor ::
  "string list \<Rightarrow> string \<Rightarrow> string list option \<Rightarrow> ('b, 't) FieldMapperDelegate" where
  "constructor PermissionRanking sourceKey' permissionRanking' =
     (setPermissionRanking
        \<lparr> permissionRanking =
            (case permissionRanking' of Some r \<Rightarrow> r | None \<Rightarrow> PermissionRanking),
          defaultPermissionRanking = (permissionRanking' = None),
          sourceKey = sourceKey',
          delegate = (\<lambda>_. Undefined),
          curPermissionLvl = Undefined,
          alwaysFlag = Undefined,
          restrictAtOrAbove = Undefined,
          restrict = Undefined,
          isList = Undefined,
          accessors = Map.empty,
          nextIdent = 0 \<rparr>)"

subsection \<open>Selection\<close>

definition always :: "('b, 't) FieldMapperDelegate \<Rightarrow> ('b, 't) FieldMapperDelegate" where
  "always d =
     d\<lparr>alwaysFlag := Val True,
       curPermissionLvl := (case permissionRanking d of [] \<Rightarrow> Undefined | p # _ \<Rightarrow> Val p)\<rparr>"

definition when' ::
  "string js \<Rightarrow> ('b, 't) FieldMapperDelegate \<Rightarrow> ('b, 't) FieldMapperDelegate" where
  "when' permission d = d\<lparr>curPermissionLvl := permission\<rparr>"

definition atOrAbove ::
  "string js \<Rightarrow> ('b, 't) FieldMapperDelegate \<Rightarrow> error + ('b, 't) FieldMapperDelegate" where
  "atOrAbove permission d =
     (case indexOf (permissionRanking d) permission of
        None \<Rightarrow> Inl PermissionLvlNotFound
      | Some index \<Rightarrow> Inr (d\<lparr>restrictAtOrAbove := Val index, curPermissionLvl := permission\<rparr>))"

definition restrictTo ::
  "string js \<Rightarrow> ('b, 't) FieldMapperDelegate \<Rightarrow> error + ('b, 't) FieldMapperDelegate" where
  "restrictTo permission d =
     (case indexOf (permissionRanking d) permission of
        None \<Rightarrow> Inl PermissionLvlNotFound
      | Some index \<Rightarrow> Inr (d\<lparr>restrict := Val index, curPermissionLvl := permission\<rparr>))"

definition asList :: "('b, 't) FieldMapperDelegate \<Rightarrow> ('b, 't) FieldMapperDelegate" where
  "asList d = d\<lparr>isList := Val True\<rparr>"

subsection \<open>Narrowing and reset\<close>

text \<open>\<^verbatim>\<open>_always\<close>: each iteration reads the slot of the current level from the table as it is.\<close>

definition priv_always :: "('b, 't) FieldMapperDelegate \<Rightarrow> ('b, 't) FieldMapperDelegate" where
  "priv_always d =
     (if alwaysFlag d = Val True
      then d\<lparr>delegate :=
               fold (\<lambda>permission tbl. tbl(permission := tbl (propertyKey (curPermissionLvl d))))
                 (permissionRanking d) (delegate d)\<rparr>
      else d)"

text \<open>\<^verbatim>\<open>_restrictAtOrAbove\<close>: the index loop over the ranking.\<close>

definition priv_restrictAtOrAbove ::
  "('b, 't) fieldMapper js \<Rightarrow> ('b, 't) FieldMapperDelegate \<Rightarrow> ('b, 't) FieldMapperDelegate" where
  "priv_restrictAtOrAbove fieldMapper d =
     (case restrictAtOrAbove d of
        Val c \<Rightarrow>
          d\<lparr>delegate :=
              fold (\<lambda>i tbl. if i < c then tbl(permissionRanking d ! i := Null)
                             else tbl(permissionRanking d ! i := fieldMapper))
                [0..<length (permissionRanking d)] (delegate d)\<rparr>
      | _ \<Rightarrow> d)"

text \<open>\<^verbatim>\<open>_restrictTo\<close>.\<close>

definition priv_restrictTo ::
  "('b, 't) fieldMapper js \<Rightarrow> ('b, 't) FieldMapperDelegate \<Rightarrow> ('b, 't) FieldMapperDelegate" where
  "priv_restrictTo fieldMapper d =
     (case restrict d of
        Val r \<Rightarrow>
          d\<lparr>delegate :=
              fold (\<lambda>i tbl. if i \<noteq> r then tbl(permissionRanking d ! i := Null)
                             else tbl(permissionRanking d ! i := fieldMapper))
                [0..<length (permissionRanking d)] (delegate d)\<rparr>
      | _ \<Rightarrow> d)"

text \<open>\<^verbatim>\<open>_checkAndReset\<close>.\<close>

definition priv_checkAndReset ::
  "('b, 't) fieldMapper js \<Rightarrow> ('b, 't) FieldMapperDelegate \<Rightarrow> ('b, 't) FieldMapperDelegate" where
  "priv_checkAndReset fieldMapper d =
     (priv_restrictTo fieldMapper (priv_restrictAtOrAbove fieldMapper (priv_always d)))
       \<lparr>curPermissionLvl := Null, alwaysFlag := Null\<rparr>"

subsection \<open>Assignment\<close>

text \<open>The slot of the current level, as \<^verbatim>\<open>this.delegate[this.curPermissionLvl]\<close> reads it.\<close>

definition currentSlot :: "('b, 't) FieldMapperDelegate \<Rightarrow> ('b, 't) fieldMapper js" where
  "currentSlot d = delegate d (propertyKey (curPermissionLvl d))"

text \<open>\<^verbatim>\<open>this.delegate[this.curPermissionLvl] = new ...\<close>, with a fresh identity.\<close>

definition assignNew ::
  "('b, 't) mapperKind \<Rightarrow> ('b, 't) FieldMapperDelegate \<Rightarrow> ('b, 't) FieldMapperDelegate" where
  "assignNew k d =
     d\<lparr>delegate := (delegate d)(propertyKey (curPermissionLvl d) := Val (FieldMapper (nextIdent d) k)),
       nextIdent := Suc (nextIdent d)\<rparr>"

definition passthrough :: "('b, 't) FieldMapperDelegate \<Rightarrow> ('b, 't) FieldMapperDelegate" where
  "passthrough d =
     (let d1 = assignNew PassthroughFieldMapper d in priv_checkAndReset (currentSlot d1) d1)"

definition buildWith :: "'b \<Rightarrow> ('b, 't) FieldMapperDelegate \<Rightarrow> ('b, 't) FieldMapperDelegate" where
  "buildWith builder d =
     (let d1 = assignNew (CustomFieldMapper builder) d in priv_checkAndReset (currentSlot d1) d1)"

text \<open>
  One iteration of the loop of the second branch: a new mapper bound to the level of the
  iteration, written into that level's slot.
\<close>

fun assignOwnLvl ::
  "'t \<Rightarrow> string \<Rightarrow> (string \<Rightarrow> ('b, 't) fieldMapper js) \<times> nat \<Rightarrow>
   (string \<Rightarrow> ('b, 't) fieldMapper js) \<times> nat" where
  "assignOwnLvl transformerKey curLvl (tbl, n) =
     (tbl(curLvl := Val (FieldMapper n (SubTransformFieldMapper transformerKey curLvl))), Suc n)"

text \<open>
  \<^verbatim>\<open>subTransform\<close> up to and including \<^verbatim>\<open>this.alwaysFlag = null\<close>: the check of the level
  that was given, the writes of the two branches, and the reset of the flag.
\<close>

definition subTransformAssign ::
  "'t \<Rightarrow> string js \<Rightarrow> ('b, 't) FieldMapperDelegate \<Rightarrow> error + ('b, 't) FieldMapperDelegate" where
  "subTransformAssign transformerKey permissionLvl d =
     (if truthy permissionLvl then
        (if indexOf (permissionRanking d) permissionLvl = None
         then Inl InvalidPermissionLvlProvided
         else
           (let mapper = FieldMapper (nextIdent d)
                           (SubTransformFieldMapper transformerKey (propertyKey permissionLvl))
            in Inr (d\<lparr>delegate :=
                        fold (\<lambda>curLvl tbl. tbl(curLvl := Val mapper))
                          (permissionRanking d) (delegate d),
                      nextIdent := Suc (nextIdent d),
                      alwaysFlag := Null\<rparr>)))
      else
        (let (tbl', n') =
               fold (assignOwnLvl transformerKey) (permissionRanking d) (delegate d, nextIdent d)
         in Inr (d\<lparr>delegate := tbl', nextIdent := n', alwaysFlag := Null\<rparr>)))"

definition subTransform ::
  "'t \<Rightarrow> string js \<Rightarrow> ('b, 't) FieldMapperDelegate \<Rightarrow> error + ('b, 't) FieldMapperDelegate" where
  "subTransform transformerKey permissionLvl d =
     (case subTransformAssign transformerKey permissionLvl d of
        Inl e \<Rightarrow> Inl e
      | Inr d1 \<Rightarrow> Inr (priv_checkAndReset (currentSlot d1) d1))"

subsection \<open>Transform\<close>

text \<open>
  \<^verbatim>\<open>fieldMapper.map\<close> belongs to the mapper module, so it is the parameter \<open>mapf\<close>.
  \<^verbatim>\<open>Promise.resolve()\<close> is a promise resolved with \<^verbatim>\<open>undefined\<close>.
\<close>

definition transform ::
  "(('b, 't) fieldMapper \<Rightarrow> 'i \<Rightarrow> string \<Rightarrow> bool js \<Rightarrow> ('v, 'e) promise) \<Rightarrow>
   string js \<Rightarrow> 'i \<Rightarrow> ('b, 't) FieldMapperDelegate \<Rightarrow> ('v, 'e) promise" where
  "transform mapf permission instance d =
     (case delegate d (propertyKey permission) of
        Val fieldMapper \<Rightarrow> mapf fieldMapper instance (sourceKey d) (isList d)
      | _ \<Rightarrow> Resolved Undefined)"

subsection \<open>Calling a method by name\<close>

text \<open>The three selection methods of the class, by selector.\<close>

fun callSelection ::
  "selector \<Rightarrow> string js \<Rightarrow> ('b, 't) FieldMapperDelegate \<Rightarrow> error + ('b, 't) FieldMapperDelegate" where
  "callSelection SelAtOrAbove permission d = atOrAbove permission d"
| "callSelection SelWhen permission d = Inr (when' permission d)"
| "callSelection SelRestrictTo permission d = restrictTo permission d"

text \<open>
  \<^verbatim>\<open>this.atOrAbove(p)\<close>, \<^verbatim>\<open>this.when(p)\<close> and \<^verbatim>\<open>this.restrictTo(p)\<close> look the method up on
  the instance first, then on the prototype. A ranking that holds the empty token
  installs an accessor under the bare name (\<^verbatim>\<open>capitalize('')\<close> is empty), and that accessor
  calls the bare name again: the call never returns and the engine raises a
  \<^verbatim>\<open>RangeError\<close>. On the prototype the accessor's guard runs before that.
\<close>

definition thisCall ::
  "string list \<Rightarrow> selector \<Rightarrow> string js \<Rightarrow> ('b, 't) FieldMapperDelegate \<Rightarrow>
   error + ('b, 't) FieldMapperDelegate" where
  "thisCall PermissionRanking sel permission d =
     (if accessors d (accessorPrefix sel) \<noteq> None then Inl RangeError
      else if prototypeAccessors PermissionRanking (accessorPrefix sel) \<noteq> None then
        (if \<not> defaultPermissionRanking d then Inl CannotUseOverwrittenDefaultApi
         else Inl RangeError)
      else callSelection sel permission d)"

text \<open>
  The body of an accessor on the prototype: the guard on \<^verbatim>\<open>_defaultPermissionRanking\<close>,
  then the selection.
\<close>

definition defaultAccessor ::
  "string list \<Rightarrow> selector \<Rightarrow> string \<Rightarrow> ('b, 't) FieldMapperDelegate \<Rightarrow>
   error + ('b, 't) FieldMapperDelegate" where
  "defaultAccessor PermissionRanking sel permission d =
     (if \<not> defaultPermissionRanking d then Inl CannotUseOverwrittenDefaultApi
      else thisCall PermissionRanking sel (Val permission) d)"

text \<open>
  \<^verbatim>\<open>d[prefix + suffix]()\<close> for one of the three prefixes: the accessor of the instance if
  there is one; else the accessor of the prototype; else, for the bare name, the method
  of the class with no argument; else the property is undefined and the call is a
  \<^verbatim>\<open>TypeError\<close>.
\<close>

definition invoke ::
  "string list \<Rightarrow> selector \<Rightarrow> string \<Rightarrow> ('b, 't) FieldMapperDelegate \<Rightarrow>
   error + ('b, 't) FieldMapperDelegate" where
  "invoke PermissionRanking sel suffix d =
     (case accessors d (accessorPrefix sel @ suffix) of
        Some (sel', permission) \<Rightarrow> thisCall PermissionRanking sel' (Val permission) d
      | None \<Rightarrow>
          (case prototypeAccessors PermissionRanking (accessorPrefix sel @ suffix) of
             Some (sel', permission) \<Rightarrow> defaultAccessor PermissionRanking sel' permission d
           | None \<Rightarrow>
               (if suffix = [] then callSelection sel Undefined d else Inl NotAFunction)))"

subsection \<open>Builder chains\<close>

text \<open>
  A call on the delegate from outside, and a sequence of such calls. An exception ends
  the sequence. (Every method that throws does so before it changes a field, so a caller
  that catches the exception goes on from the same state.)
\<close>

datatype ('b, 't) call =
    Always
  | When "string js"
  | AtOrAbove "string js"
  | RestrictTo "string js"
  | Passthrough
  | BuildWith 'b
  | SubTransform 't "string js"
  | AsList
  | Accessor selector string

fun perform ::
  "string list \<Rightarrow> ('b, 't) call \<Rightarrow> ('b, 't) FieldMapperDelegate \<Rightarrow>
   error + ('b, 't) FieldMapperDelegate" where
  "perform PR Always d = Inr (always d)"
| "perform PR (When permission) d = thisCall PR SelWhen permission d"
| "perform PR (AtOrAbove permission) d = thisCall PR SelAtOrAbove permission d"
| "perform PR (RestrictTo permission) d = thisCall PR SelRestrictTo permission d"
| "perform PR Passthrough d = Inr (passthrough d)"
| "perform PR (BuildWith builder) d = Inr (buildWith builder d)"
| "perform PR (SubTransform transformerKey permissionLvl) d = subTransform transformerKey permissionLvl d"
| "perform PR AsList d = Inr (asList d)"
| "perform PR (Accessor sel suffix) d = invoke PR sel suffix d"

fun chain ::
  "string list \<Rightarrow> ('b, 't) call list \<Rightarrow> ('b, 't) FieldMapperDelegate \<Rightarrow>
   error + ('b, 't) FieldMapperDelegate" where
  "chain PR [] d = Inr d"
| "chain PR (c # cs) d = (case perform PR c d of Inl e \<Rightarrow> Inl e | Inr d' \<Rightarrow> chain PR cs d')"

fun isAssignment :: "('b, 't) call \<Rightarrow> bool" where
  "isAssignment Passthrough = True"
| "isAssignment (BuildWith builder) = True"
| "isAssignment (SubTransform transformerKey permissionLvl) = True"
| "isAssignment c = False"

section \<open>Predicates and the claim's naming rule\<close>

text \<open>A slot that holds a pass-through mapper.\<close>

fun isPassthroughSlot :: "('b, 't) fieldMapper js \<Rightarrow> bool" where
  "isPassthroughSlot (Val (FieldMapper i PassthroughFieldMapper)) = True"
| "isPassthroughSlot v = False"

text \<open>
  The naming rule in the words of claim C9, not of the source: the first character of the
  token capitalized, the remainder of the token unchanged. It is here to be compared with
  \<open>capitalize\<close>.
\<close>

definition capitalizeFirstOnly :: "string \<Rightarrow> string" where
  "capitalizeFirstOnly str = map toUpperCase (take 1 str) @ drop 1 str"

section \<open>Example delegates\<close>

text \<open>
  Concrete inputs for the closed theorems below. The tests name the levels \<^verbatim>\<open>PUBLIC\<close> and
  \<^verbatim>\<open>PRIVATE\<close>; \<open>exampleDefaultRanking\<close> is an example value of the parameter that stands
  for the default ranking. \<open>lowMediumHigh\<close> is the delegate of the tests with a custom
  ranking.
\<close>

definition exampleDefaultRanking :: "string list" where
  "exampleDefaultRanking = [''PUBLIC'', ''PRIVATE'']"

definition lowMediumHigh :: "(unit, unit) FieldMapperDelegate" where
  "lowMediumHigh =
     constructor exampleDefaultRanking ''woop'' (Some [''low'', ''medium'', ''high''])"

text \<open>
  Modelled from the spec: the mapper module is not part of the sources at hand. Section 6
  of the specification says that the pass-through mapper's \<^verbatim>\<open>map\<close> reads
  \<^verbatim>\<open>instance[sourceKey]\<close>. \<open>exampleMap\<close> does that for every mapper; it is only the
  concrete value of the parameter \<open>mapf\<close> in closed theorems. \<open>exampleInstance\<close> is the
  object \<^verbatim>\<open>{ woop: 200 }\<close> of the tests.
\<close>

definition exampleInstance :: "string \<Rightarrow> nat js" where
  "exampleInstance = (\<lambda>k. if k = ''woop'' then Val 200 else Undefined)"

definition exampleMap ::
  "(unit, unit) fieldMapper \<Rightarrow> (string \<Rightarrow> nat js) \<Rightarrow> string \<Rightarrow> bool js \<Rightarrow> (nat, unit) promise" where
  "exampleMap fieldMapper instance key isList' = Resolved (instance key)"

text \<open>A delegate whose custom ranking holds the empty token.\<close>

definition emptyTokenDelegate :: "(unit, unit) FieldMapperDelegate" where
  "emptyTokenDelegate = constructor exampleDefaultRanking ''woop'' (Some ['''', ''x''])"

text \<open>
  Delegates with other custom rankings: the two upper-case tokens, a ranking that shares
  the token \<^verbatim>\<open>private\<close> (up to case) with the example default ranking, and a ranking
  that holds the token \<^verbatim>\<open>undefined\<close>.
\<close>

definition publicPrivate :: "(unit, unit) FieldMapperDelegate" where
  "publicPrivate = constructor exampleDefaultRanking ''woop'' (Some [''PUBLIC'', ''PRIVATE''])"

definition privateSecret :: "(unit, unit) FieldMapperDelegate" where
  "privateSecret = constructor exampleDefaultRanking ''woop'' (Some [''private'', ''secret''])"

definition undefinedTokenDelegate :: "(unit, unit) FieldMapperDelegate" where
  "undefinedTokenDelegate = constructor exampleDefaultRanking ''woop'' (Some [''undefined''])"

section \<open>Auxiliary facts\<close>

subsection \<open>The loops over the ranking\<close>

lemma fold_const_update:
  "fold (\<lambda>p tbl. tbl(p := v)) ps tbl = (\<lambda>k. if k \<in> set ps then v else tbl k)"
  by (induction ps arbitrary: tbl) (auto simp: fun_eq_iff)

lemma fold_copy_update:
  "fold (\<lambda>p tbl. tbl(p := tbl key)) ps tbl = (\<lambda>k. if k \<in> set ps then tbl key else tbl k)"
  by (induction ps arbitrary: tbl) (auto simp: fun_eq_iff)

lemma fold_index_update:
  "distinct r \<Longrightarrow> set js \<subseteq> {..<length r} \<Longrightarrow> i < length r \<Longrightarrow>
   fold (\<lambda>j tbl. tbl(r ! j := g j)) js tbl (r ! i) = (if i \<in> set js then g i else tbl (r ! i))"
  by (induction js arbitrary: tbl) (auto simp: nth_eq_iff_index_eq)

lemma fold_index_update_all:
  assumes "distinct r" and "i < length r"
  shows "fold (\<lambda>j tbl. tbl(r ! j := g j)) [0..<length r] tbl (r ! i) = g i"
proof -
  have "set [0..<length r] \<subseteq> {..<length r}" by auto
  from fold_index_update [OF assms(1) this assms(2)] assms(2) show ?thesis by simp
qed

lemma index_loop_body:
  "(\<lambda>i tbl. if b i then tbl(r ! i := x) else tbl(r ! i := y)) =
   (\<lambda>i tbl. tbl(r ! i := (if b i then x else y)))"
  by (simp add: fun_eq_iff)

lemma delegate_priv_always:
  "delegate (priv_always d) k =
     (if alwaysFlag d = Val True \<and> k \<in> set (permissionRanking d) then currentSlot d
      else delegate d k)"
  by (simp add: priv_always_def fold_copy_update currentSlot_def)

lemma priv_always_fields [simp]:
  "permissionRanking (priv_always d) = permissionRanking d"
  "restrictAtOrAbove (priv_always d) = restrictAtOrAbove d"
  "restrict (priv_always d) = restrict d"
  "nextIdent (priv_always d) = nextIdent d"
  "accessors (priv_always d) = accessors d"
  "defaultPermissionRanking (priv_always d) = defaultPermissionRanking d"
  "sourceKey (priv_always d) = sourceKey d"
  "isList (priv_always d) = isList d"
  by (simp_all add: priv_always_def)

lemma priv_restrictAtOrAbove_fields [simp]:
  "permissionRanking (priv_restrictAtOrAbove fm d) = permissionRanking d"
  "restrictAtOrAbove (priv_restrictAtOrAbove fm d) = restrictAtOrAbove d"
  "restrict (priv_restrictAtOrAbove fm d) = restrict d"
  "nextIdent (priv_restrictAtOrAbove fm d) = nextIdent d"
  "accessors (priv_restrictAtOrAbove fm d) = accessors d"
  "defaultPermissionRanking (priv_restrictAtOrAbove fm d) = defaultPermissionRanking d"
  "sourceKey (priv_restrictAtOrAbove fm d) = sourceKey d"
  "isList (priv_restrictAtOrAbove fm d) = isList d"
  by (simp_all add: priv_restrictAtOrAbove_def split: js.splits)

lemma priv_restrictTo_fields [simp]:
  "permissionRanking (priv_restrictTo fm d) = permissionRanking d"
  "restrictAtOrAbove (priv_restrictTo fm d) = restrictAtOrAbove d"
  "restrict (priv_restrictTo fm d) = restrict d"
  "nextIdent (priv_restrictTo fm d) = nextIdent d"
  "accessors (priv_restrictTo fm d) = accessors d"
  "defaultPermissionRanking (priv_restrictTo fm d) = defaultPermissionRanking d"
  "sourceKey (priv_restrictTo fm d) = sourceKey d"
  "isList (priv_restrictTo fm d) = isList d"
  by (simp_all add: priv_restrictTo_def split: js.splits)

lemma priv_checkAndReset_fields [simp]:
  "permissionRanking (priv_checkAndReset fm d) = permissionRanking d"
  "restrictAtOrAbove (priv_checkAndReset fm d) = restrictAtOrAbove d"
  "restrict (priv_checkAndReset fm d) = restrict d"
  "nextIdent (priv_checkAndReset fm d) = nextIdent d"
  "accessors (priv_checkAndReset fm d) = accessors d"
  "defaultPermissionRanking (priv_checkAndReset fm d) = defaultPermissionRanking d"
  "sourceKey (priv_checkAndReset fm d) = sourceKey d"
  "isList (priv_checkAndReset fm d) = isList d"
  "curPermissionLvl (priv_checkAndReset fm d) = Null"
  "alwaysFlag (priv_checkAndReset fm d) = Null"
  by (simp_all add: priv_checkAndReset_def)

lemma delegate_priv_restrictAtOrAbove_set:
  assumes "distinct (permissionRanking d)" and "restrictAtOrAbove d = Val c"
    and "i < length (permissionRanking d)"
  shows "delegate (priv_restrictAtOrAbove fm d) (permissionRanking d ! i) =
           (if i < c then Null else fm)"
proof -
  have "fold (\<lambda>j tbl. tbl(permissionRanking d ! j := (if j < c then Null else fm)))
          [0..<length (permissionRanking d)] (delegate d) (permissionRanking d ! i) =
        (if i < c then Null else fm)"
    using assms(1,3) by (rule fold_index_update_all)
  then show ?thesis
    using assms(2) by (simp add: priv_restrictAtOrAbove_def index_loop_body)
qed

lemma delegate_priv_restrictAtOrAbove_unset:
  "\<forall>c. restrictAtOrAbove d \<noteq> Val c \<Longrightarrow> priv_restrictAtOrAbove fm d = d"
  by (simp add: priv_restrictAtOrAbove_def split: js.splits)

lemma delegate_priv_restrictTo_set:
  assumes "distinct (permissionRanking d)" and "restrict d = Val r"
    and "i < length (permissionRanking d)"
  shows "delegate (priv_restrictTo fm d) (permissionRanking d ! i) =
           (if i \<noteq> r then Null else fm)"
proof -
  have "fold (\<lambda>j tbl. tbl(permissionRanking d ! j := (if j \<noteq> r then Null else fm)))
          [0..<length (permissionRanking d)] (delegate d) (permissionRanking d ! i) =
        (if i \<noteq> r then Null else fm)"
    using assms(1,3) by (rule fold_index_update_all)
  then show ?thesis
    using assms(2) by (simp add: priv_restrictTo_def index_loop_body)
qed

lemma delegate_priv_restrictTo_unset:
  "\<forall>r. restrict d \<noteq> Val r \<Longrightarrow> priv_restrictTo fm d = d"
  by (simp add: priv_restrictTo_def split: js.splits)

lemma delegate_priv_checkAndReset [simp]:
  "delegate (priv_checkAndReset fm d) =
     delegate (priv_restrictTo fm (priv_restrictAtOrAbove fm (priv_always d)))"
  by (simp add: priv_checkAndReset_def)

lemma indexOfStr_Some:
  "P \<in> set r \<Longrightarrow> \<exists>ix. indexOfStr r P = Some ix \<and> ix < length r \<and> r ! ix = P"
  by (induction r) auto

subsection \<open>Fields after construction and assignment\<close>

lemma constructor_fields [simp]:
  "permissionRanking (constructor PR sk pr) = (case pr of Some r \<Rightarrow> r | None \<Rightarrow> PR)"
  "defaultPermissionRanking (constructor PR sk pr) = (pr = None)"
  "sourceKey (constructor PR sk pr) = sk"
  "delegate (constructor PR sk pr) = (\<lambda>_. Undefined)"
  "curPermissionLvl (constructor PR sk pr) = Undefined"
  "alwaysFlag (constructor PR sk pr) = Undefined"
  "restrictAtOrAbove (constructor PR sk pr) = Undefined"
  "restrict (constructor PR sk pr) = Undefined"
  "isList (constructor PR sk pr) = Undefined"
  "nextIdent (constructor PR sk pr) = 0"
  "accessors (constructor PR sk pr) =
     fold installAccessors (case pr of Some r \<Rightarrow> r | None \<Rightarrow> PR) Map.empty"
  by (simp_all add: constructor_def setPermissionRanking_def buildPermissionMethods_def)

lemma assignNew_fields [simp]:
  "permissionRanking (assignNew k d) = permissionRanking d"
  "restrictAtOrAbove (assignNew k d) = restrictAtOrAbove d"
  "restrict (assignNew k d) = restrict d"
  "nextIdent (assignNew k d) = Suc (nextIdent d)"
  "accessors (assignNew k d) = accessors d"
  "defaultPermissionRanking (assignNew k d) = defaultPermissionRanking d"
  "sourceKey (assignNew k d) = sourceKey d"
  "isList (assignNew k d) = isList d"
  "curPermissionLvl (assignNew k d) = curPermissionLvl d"
  "alwaysFlag (assignNew k d) = alwaysFlag d"
  "currentSlot (assignNew k d) = Val (FieldMapper (nextIdent d) k)"
  "delegate (assignNew k d) =
     (delegate d)(propertyKey (curPermissionLvl d) := Val (FieldMapper (nextIdent d) k))"
  by (simp_all add: assignNew_def currentSlot_def)

lemma checkAndReset_sole:
  assumes "distinct (permissionRanking d)" and "restrict d = Val r"
    and "i < length (permissionRanking d)"
  shows "delegate (priv_checkAndReset fm d) (permissionRanking d ! i) =
           (if i \<noteq> r then Null else fm)"
  using delegate_priv_restrictTo_set
    [of "priv_restrictAtOrAbove fm (priv_always d)" r i fm] assms
  by simp

lemma checkAndReset_cutoff:
  assumes "distinct (permissionRanking d)" and "restrictAtOrAbove d = Val c"
    and "\<forall>r. restrict d \<noteq> Val r" and "i < length (permissionRanking d)"
  shows "delegate (priv_checkAndReset fm d) (permissionRanking d ! i) =
           (if i < c then Null else fm)"
  using delegate_priv_restrictAtOrAbove_set [of "priv_always d" c i fm] assms
  by (simp add: delegate_priv_restrictTo_unset)

lemma checkAndReset_plain:
  assumes "\<forall>c. restrictAtOrAbove d \<noteq> Val c" and "\<forall>r. restrict d \<noteq> Val r"
  shows "delegate (priv_checkAndReset fm d) = delegate (priv_always d)"
  using assms by (simp add: delegate_priv_restrictTo_unset delegate_priv_restrictAtOrAbove_unset)

lemma lowMediumHigh_fields [simp]:
  "permissionRanking lowMediumHigh = [''low'', ''medium'', ''high'']"
  "defaultPermissionRanking lowMediumHigh = False"
  "delegate lowMediumHigh = (\<lambda>_. Undefined)"
  "curPermissionLvl lowMediumHigh = Undefined"
  "alwaysFlag lowMediumHigh = Undefined"
  "restrictAtOrAbove lowMediumHigh = Undefined"
  "restrict lowMediumHigh = Undefined"
  "nextIdent lowMediumHigh = 0"
  by (simp_all add: lowMediumHigh_def)

lemma passthrough_fields [simp]:
  "permissionRanking (passthrough d) = permissionRanking d"
  "restrictAtOrAbove (passthrough d) = restrictAtOrAbove d"
  "restrict (passthrough d) = restrict d"
  "nextIdent (passthrough d) = Suc (nextIdent d)"
  "accessors (passthrough d) = accessors d"
  "defaultPermissionRanking (passthrough d) = defaultPermissionRanking d"
  "sourceKey (passthrough d) = sourceKey d"
  "isList (passthrough d) = isList d"
  "curPermissionLvl (passthrough d) = Null"
  "alwaysFlag (passthrough d) = Null"
  by (simp_all add: passthrough_def Let_def)

lemma buildWith_fields [simp]:
  "permissionRanking (buildWith b d) = permissionRanking d"
  "restrictAtOrAbove (buildWith b d) = restrictAtOrAbove d"
  "restrict (buildWith b d) = restrict d"
  "nextIdent (buildWith b d) = Suc (nextIdent d)"
  "accessors (buildWith b d) = accessors d"
  "defaultPermissionRanking (buildWith b d) = defaultPermissionRanking d"
  "sourceKey (buildWith b d) = sourceKey d"
  "isList (buildWith b d) = isList d"
  "curPermissionLvl (buildWith b d) = Null"
  "alwaysFlag (buildWith b d) = Null"
  by (simp_all add: buildWith_def Let_def)

lemma when'_fields [simp]:
  "permissionRanking (when' p d) = permissionRanking d"
  "restrictAtOrAbove (when' p d) = restrictAtOrAbove d"
  "restrict (when' p d) = restrict d"
  "nextIdent (when' p d) = nextIdent d"
  "accessors (when' p d) = accessors d"
  "defaultPermissionRanking (when' p d) = defaultPermissionRanking d"
  "sourceKey (when' p d) = sourceKey d"
  "isList (when' p d) = isList d"
  "curPermissionLvl (when' p d) = p"
  "alwaysFlag (when' p d) = alwaysFlag d"
  "delegate (when' p d) = delegate d"
  by (simp_all add: when'_def)

lemma when_passthrough_table:
  "(\<forall>c. restrictAtOrAbove d \<noteq> Val c) \<Longrightarrow> (\<forall>r. restrict d \<noteq> Val r) \<Longrightarrow>
   alwaysFlag d \<noteq> Val True \<Longrightarrow>
   delegate (passthrough (when' p d)) =
     (delegate d)(propertyKey p := Val (FieldMapper (nextIdent d) PassthroughFieldMapper))"
  by (simp add: passthrough_def Let_def when'_def delegate_priv_restrictTo_unset
      delegate_priv_restrictAtOrAbove_unset priv_always_def assignNew_def currentSlot_def)

subsection \<open>The writes of subTransform\<close>

lemma fold_assignOwnLvl_Cons:
  "fold (assignOwnLvl tk) (p # ps) (tbl0, n0) =
   fold (assignOwnLvl tk) ps
     (tbl0(p := Val (FieldMapper n0 (SubTransformFieldMapper tk p))), Suc n0)"
  by simp

lemma cascade_fold_count:
  "fold (assignOwnLvl tk) ps (tbl0, n0) = (tbl', n') \<Longrightarrow> n' = n0 + length ps"
proof (induction ps arbitrary: tbl0 n0)
  case Nil
  then show ?case by simp
next
  case (Cons p ps)
  from Cons.IH [OF Cons.prems [unfolded fold_assignOwnLvl_Cons]] show ?case by simp
qed

lemma cascade_fold_other:
  "fold (assignOwnLvl tk) ps (tbl0, n0) = (tbl', n') \<Longrightarrow> L \<notin> set ps \<Longrightarrow> tbl' L = tbl0 L"
proof (induction ps arbitrary: tbl0 n0)
  case Nil
  then show ?case by simp
next
  case (Cons p ps)
  from Cons.IH [OF Cons.prems(1) [unfolded fold_assignOwnLvl_Cons]] Cons.prems(2)
  show ?case by simp
qed

lemma cascade_fold_slot:
  "fold (assignOwnLvl tk) ps (tbl0, n0) = (tbl', n') \<Longrightarrow> L \<in> set ps \<Longrightarrow>
   \<exists>i. n0 \<le> i \<and> i < n' \<and> tbl' L = Val (FieldMapper i (SubTransformFieldMapper tk L))"
proof (induction ps arbitrary: tbl0 n0)
  case Nil
  then show ?case by simp
next
  case (Cons p ps)
  note f = Cons.prems(1) [unfolded fold_assignOwnLvl_Cons]
  show ?case
  proof (cases "L \<in> set ps")
    case True
    from Cons.IH [OF f True] show ?thesis by (meson Suc_leD)
  next
    case False
    with Cons.prems(2) have "L = p" by simp
    from cascade_fold_other [OF f False] cascade_fold_count [OF f] \<open>L = p\<close>
    show ?thesis by auto
  qed
qed

lemma cascade_fold_distinct:
  assumes "fold (assignOwnLvl tk) ps (tbl0, n0) = (tbl', n')"
    and "L \<in> set ps" and "L' \<in> set ps" and "L \<noteq> L'"
    and "tbl' L = Val m" and "tbl' L' = Val m'"
  shows "ident m \<noteq> ident m'"
  using assms
proof (induction ps arbitrary: tbl0 n0)
  case Nil
  then show ?case by simp
next
  case (Cons p ps)
  note f = Cons.prems(1) [unfolded fold_assignOwnLvl_Cons]
  have old: "ident m1 = n0" if "K \<notin> set ps" "K = p" "tbl' K = Val m1" for K m1
    using cascade_fold_other [OF f that(1)] that by auto
  have new: "Suc n0 \<le> ident m1" if "K \<in> set ps" "tbl' K = Val m1" for K m1
    using cascade_fold_slot [OF f that(1)] that by auto
  consider "L \<in> set ps" "L' \<in> set ps" | "L \<notin> set ps" "L' \<in> set ps"
    | "L \<in> set ps" "L' \<notin> set ps"
    using Cons.prems(2,3,4) by auto
  then show ?case
  proof cases
    case 1
    from Cons.IH [OF f 1 Cons.prems(4,5,6)] show ?thesis .
  next
    case 2
    with Cons.prems(2) have "L = p" by simp
    from old [OF 2(1) this Cons.prems(5)] new [OF 2(2) Cons.prems(6)] show ?thesis by simp
  next
    case 3
    with Cons.prems(3) have "L' = p" by simp
    from old [OF 3(2) this Cons.prems(6)] new [OF 3(1) Cons.prems(5)] show ?thesis by simp
  qed
qed

lemma indexOfStr_eq_None: "indexOfStr r P = None \<longleftrightarrow> P \<notin> set r"
  by (induction r) auto

lemma subTransformAssign_explicit:
  assumes "lvl \<noteq> []" and "lvl \<in> set (permissionRanking d)"
  shows "subTransformAssign tk (Val lvl) d =
     Inr (d\<lparr>delegate := (\<lambda>k. if k \<in> set (permissionRanking d)
                              then Val (FieldMapper (nextIdent d) (SubTransformFieldMapper tk lvl))
                              else delegate d k),
            nextIdent := Suc (nextIdent d), alwaysFlag := Null\<rparr>)"
  using assms by (simp add: subTransformAssign_def indexOfStr_eq_None fold_const_update)

lemma subTransformAssign_invalid:
  assumes "lvl \<noteq> []" and "lvl \<notin> set (permissionRanking d)"
  shows "subTransformAssign tk (Val lvl) d = Inl InvalidPermissionLvlProvided"
  using assms by (simp add: subTransformAssign_def indexOfStr_eq_None)

lemma subTransformAssign_cascade:
  assumes "\<not> truthy pl"
  shows "subTransformAssign tk pl d =
     Inr (d\<lparr>delegate := fst (fold (assignOwnLvl tk) (permissionRanking d) (delegate d, nextIdent d)),
            nextIdent := snd (fold (assignOwnLvl tk) (permissionRanking d) (delegate d, nextIdent d)),
            alwaysFlag := Null\<rparr>)"
  using assms by (simp add: subTransformAssign_def split: prod.splits)

lemma subTransformAssign_fields:
  assumes "subTransformAssign tk pl d = Inr d1"
  shows "permissionRanking d1 = permissionRanking d"
    and "restrictAtOrAbove d1 = restrictAtOrAbove d"
    and "restrict d1 = restrict d"
    and "accessors d1 = accessors d"
    and "defaultPermissionRanking d1 = defaultPermissionRanking d"
    and "sourceKey d1 = sourceKey d"
    and "isList d1 = isList d"
    and "curPermissionLvl d1 = curPermissionLvl d"
    and "alwaysFlag d1 = Null"
  using assms
  by (auto simp: subTransformAssign_def Let_def split: if_splits prod.splits)

lemma priv_always_unset: "alwaysFlag d \<noteq> Val True \<Longrightarrow> priv_always d = d"
  by (simp add: priv_always_def)

lemma checkAndReset_no_narrowing:
  assumes "alwaysFlag d = Null" and "\<forall>c. restrictAtOrAbove d \<noteq> Val c"
    and "\<forall>r. restrict d \<noteq> Val r"
  shows "delegate (priv_checkAndReset fm d) = delegate d"
  using assms
  by (simp add: delegate_priv_restrictTo_unset delegate_priv_restrictAtOrAbove_unset
      priv_always_unset)

lemma subTransform_of_assign:
  assumes "subTransformAssign tk pl d = Inr d1"
  shows "subTransform tk pl d = Inr (priv_checkAndReset (currentSlot d1) d1)"
  using assms by (simp add: subTransform_def)

lemma subTransform_lowMediumHigh_cascade:
  "subTransformAssign () Undefined lowMediumHigh =
     Inr (lowMediumHigh\<lparr>delegate := (\<lambda>_. Undefined)
            (''low'' := Val (FieldMapper 0 (SubTransformFieldMapper () ''low'')),
             ''medium'' := Val (FieldMapper 1 (SubTransformFieldMapper () ''medium'')),
             ''high'' := Val (FieldMapper 2 (SubTransformFieldMapper () ''high''))),
          nextIdent := 3, alwaysFlag := Null\<rparr>)"
  by (simp add: subTransformAssign_cascade numeral_2_eq_2 numeral_3_eq_3)

lemma assignment_shape:
  assumes "isAssignment c" and "perform PR c d = Inr d'"
  shows "\<exists>fm d1. d' = priv_checkAndReset fm d1 \<and> permissionRanking d1 = permissionRanking d \<and>
           restrict d1 = restrict d \<and> restrictAtOrAbove d1 = restrictAtOrAbove d"
proof (cases c)
  case Passthrough
  with assms(2) have "d' = priv_checkAndReset (currentSlot (assignNew PassthroughFieldMapper d))
                         (assignNew PassthroughFieldMapper d)"
    by (simp add: passthrough_def Let_def)
  then show ?thesis by (metis assignNew_fields(1,2,3))
next
  case (BuildWith b)
  with assms(2) have "d' = priv_checkAndReset (currentSlot (assignNew (CustomFieldMapper b) d))
                         (assignNew (CustomFieldMapper b) d)"
    by (simp add: buildWith_def Let_def)
  then show ?thesis by (metis assignNew_fields(1,2,3))
next
  case (SubTransform tk pl)
  with assms(2) obtain d1 where d1: "subTransformAssign tk pl d = Inr d1"
    "d' = priv_checkAndReset (currentSlot d1) d1"
    by (auto simp: subTransform_def split: sum.splits)
  from subTransformAssign_fields(1,2,3) [OF d1(1)] d1(2) show ?thesis by blast
qed (use assms(1) in simp_all)

subsection \<open>Accessors and calls\<close>

lemma capitalize_empty [simp]: "capitalize s = [] \<longleftrightarrow> s = []"
  by (cases s) (simp_all add: capitalize_def)

lemma empty_capitalize [simp]: "[] = capitalize s \<longleftrightarrow> s = []"
  by (cases s) (simp_all add: capitalize_def)

lemma accessorName_eq_prefix_append:
  "accessorName s q = accessorPrefix s' @ x \<longleftrightarrow> s = s' \<and> x = capitalize q"
  by (cases s; cases s') (auto simp: accessorName_def)

lemma accessorName_eq:
  "accessorName s q = accessorName s' q' \<longleftrightarrow> s = s' \<and> capitalize q = capitalize q'"
  by (cases s; cases s') (auto simp: accessorName_def)

lemma accessorName_eq_prefix:
  "accessorName s q = accessorPrefix s' \<longleftrightarrow> s = s' \<and> q = []"
  using accessorName_eq_prefix_append [of s q s' "[]"] by auto

lemma installAccessors_None:
  "installAccessors p m k = None \<longleftrightarrow> m k = None \<and> (\<forall>s. accessorName s p \<noteq> k)"
proof -
  have "(\<forall>s. accessorName s p \<noteq> k) \<longleftrightarrow>
        accessorName SelAtOrAbove p \<noteq> k \<and> accessorName SelWhen p \<noteq> k \<and>
        accessorName SelRestrictTo p \<noteq> k"
    by (metis selector.exhaust)
  then show ?thesis by (auto simp: installAccessors_def)
qed

lemma fold_installAccessors_None:
  "fold installAccessors ps m k = None \<longleftrightarrow>
     m k = None \<and> (\<forall>q \<in> set ps. \<forall>s. accessorName s q \<noteq> k)"
  by (induction ps arbitrary: m) (auto simp: installAccessors_None)

lemma installAccessors_same:
  "installAccessors p m (accessorName sel p) = Some (sel, p)"
  by (cases sel) (simp_all add: installAccessors_def accessorName_eq)

lemma installAccessors_other:
  "capitalize q \<noteq> capitalize p \<Longrightarrow>
   installAccessors q m (accessorName sel p) = m (accessorName sel p)"
  by (simp add: installAccessors_def accessorName_eq)

lemma fold_installAccessors_Some:
  assumes "p \<in> set ps \<or> m (accessorName sel p) = Some (sel, p)"
    and "\<forall>q \<in> set ps. capitalize q = capitalize p \<longrightarrow> q = p"
  shows "fold installAccessors ps m (accessorName sel p) = Some (sel, p)"
  using assms
proof (induction ps arbitrary: m)
  case Nil
  then show ?case by simp
next
  case (Cons q ps)
  show ?case
  proof (cases "q = p")
    case True
    with Cons.prems(2) show ?thesis
      by (simp add: Cons.IH installAccessors_same)
  next
    case False
    with Cons.prems(2) have "capitalize q \<noteq> capitalize p" by auto
    with Cons.prems False show ?thesis
      by (simp add: Cons.IH installAccessors_other)
  qed
qed

lemma callSelection_static:
  assumes "callSelection sel p d = Inr d'"
  shows "permissionRanking d' = permissionRanking d"
    and "defaultPermissionRanking d' = defaultPermissionRanking d"
    and "accessors d' = accessors d"
    and "sourceKey d' = sourceKey d"
    and "delegate d' = delegate d"
    and "nextIdent d' = nextIdent d"
  using assms
  by (cases sel; auto simp: atOrAbove_def restrictTo_def when'_def split: option.splits)+

lemma thisCall_Inr:
  "thisCall PR sel p d = Inr d' \<Longrightarrow> callSelection sel p d = Inr d'"
  by (simp add: thisCall_def split: if_splits)

lemma defaultAccessor_Inr:
  "defaultAccessor PR sel p d = Inr d' \<Longrightarrow> callSelection sel (Val p) d = Inr d'"
  by (auto simp: defaultAccessor_def split: if_splits dest: thisCall_Inr)

lemma invoke_Inr:
  "invoke PR sel suffix d = Inr d' \<Longrightarrow> \<exists>sel' p'. callSelection sel' p' d = Inr d'"
  by (auto simp: invoke_def split: option.splits if_splits
      dest: thisCall_Inr defaultAccessor_Inr)

lemma subTransform_static:
  assumes "subTransform tk pl d = Inr d'"
  shows "permissionRanking d' = permissionRanking d"
    and "defaultPermissionRanking d' = defaultPermissionRanking d"
    and "accessors d' = accessors d"
    and "sourceKey d' = sourceKey d"
proof -
  from assms obtain d1 where d1: "subTransformAssign tk pl d = Inr d1"
    "d' = priv_checkAndReset (currentSlot d1) d1"
    by (auto simp: subTransform_def split: sum.splits)
  from subTransformAssign_fields [OF d1(1)] d1(2)
  show "permissionRanking d' = permissionRanking d"
    and "defaultPermissionRanking d' = defaultPermissionRanking d"
    and "accessors d' = accessors d"
    and "sourceKey d' = sourceKey d"
    by simp_all
qed

lemma always_fields [simp]:
  "permissionRanking (always d) = permissionRanking d"
  "defaultPermissionRanking (always d) = defaultPermissionRanking d"
  "accessors (always d) = accessors d"
  "sourceKey (always d) = sourceKey d"
  "delegate (always d) = delegate d"
  "nextIdent (always d) = nextIdent d"
  by (simp_all add: always_def)

lemma asList_fields [simp]:
  "permissionRanking (asList d) = permissionRanking d"
  "defaultPermissionRanking (asList d) = defaultPermissionRanking d"
  "accessors (asList d) = accessors d"
  "sourceKey (asList d) = sourceKey d"
  "delegate (asList d) = delegate d"
  "nextIdent (asList d) = nextIdent d"
  by (simp_all add: asList_def)

lemma perform_static:
  assumes "perform PR c d = Inr d'"
  shows "permissionRanking d' = permissionRanking d \<and>
         defaultPermissionRanking d' = defaultPermissionRanking d \<and>
         accessors d' = accessors d \<and> sourceKey d' = sourceKey d"
proof (cases c)
  case (When p)
  with assms callSelection_static [OF thisCall_Inr, of PR SelWhen p d d'] show ?thesis by simp
next
  case (AtOrAbove p)
  with assms callSelection_static [OF thisCall_Inr, of PR SelAtOrAbove p d d'] show ?thesis by simp
next
  case (RestrictTo p)
  with assms callSelection_static [OF thisCall_Inr, of PR SelRestrictTo p d d'] show ?thesis by simp
next
  case (SubTransform tk pl)
  with assms subTransform_static [of tk pl d d'] show ?thesis by simp
next
  case (Accessor sel suffix)
  with assms obtain sel' p' where "callSelection sel' p' d = Inr d'"
    using invoke_Inr by fastforce
  from callSelection_static [OF this] show ?thesis by simp
qed (use assms in auto)

lemma chain_static:
  "chain PR cs d = Inr d' \<Longrightarrow>
   permissionRanking d' = permissionRanking d \<and>
   defaultPermissionRanking d' = defaultPermissionRanking d \<and>
   accessors d' = accessors d \<and> sourceKey d' = sourceKey d"
proof (induction cs arbitrary: d)
  case Nil
  then show ?case by simp
next
  case (Cons c cs)
  then obtain d1 where d1: "perform PR c d = Inr d1" "chain PR cs d1 = Inr d'"
    by (auto split: sum.splits)
  from Cons.IH [OF d1(2)] perform_static [OF d1(1)] show ?case by simp
qed

lemma thisCall_plain:
  assumes "accessors d = fold installAccessors (permissionRanking d) Map.empty"
    and "[] \<notin> set (permissionRanking d)" and "[] \<notin> set PR"
  shows "thisCall PR sel p d = callSelection sel p d"
proof -
  have "accessors d (accessorPrefix sel) = None"
    using assms(1,2) by (auto simp: fold_installAccessors_None accessorName_eq_prefix)
  moreover have "prototypeAccessors PR (accessorPrefix sel) = None"
    using assms(3)
    by (auto simp: prototypeAccessors_def fold_installAccessors_None accessorName_eq_prefix)
  ultimately show ?thesis by (simp add: thisCall_def)
qed

lemma invoke_generated:
  assumes "accessors d = fold installAccessors (permissionRanking d) Map.empty"
    and "p \<in> set (permissionRanking d)"
    and "\<forall>q \<in> set (permissionRanking d). capitalize q = capitalize p \<longrightarrow> q = p"
  shows "accessors d (accessorName sel p) = Some (sel, p)"
    and "invoke PR sel (capitalize p) d = thisCall PR sel (Val p) d"
proof -
  show a: "accessors d (accessorName sel p) = Some (sel, p)"
    using assms by (simp add: fold_installAccessors_Some)
  then show "invoke PR sel (capitalize p) d = thisCall PR sel (Val p) d"
    by (simp add: invoke_def accessorName_def)
qed

lemma invoke_default_guard:
  assumes "accessors d = fold installAccessors (permissionRanking d) Map.empty"
    and "\<not> defaultPermissionRanking d" and "p \<in> set PR"
    and "\<forall>q \<in> set (permissionRanking d). capitalize q \<noteq> capitalize p"
  shows "invoke PR sel (capitalize p) d = Inl CannotUseOverwrittenDefaultApi"
proof -
  have own: "accessors d (accessorPrefix sel @ capitalize p) = None"
    using assms(1,4)
    by (auto simp: fold_installAccessors_None accessorName_eq_prefix_append)
  have "prototypeAccessors PR (accessorPrefix sel @ capitalize p) \<noteq> None"
    using assms(3)
    by (auto simp: prototypeAccessors_def fold_installAccessors_None
        accessorName_eq_prefix_append)
  then obtain sel' p' where
    "prototypeAccessors PR (accessorPrefix sel @ capitalize p) = Some (sel', p')"
    by auto
  with own assms(2) show ?thesis
    by (simp add: invoke_def defaultAccessor_def)
qed

lemma capitalize_examples [simp]:
  "capitalize ''PUBLIC'' = ''Public''" "capitalize ''PRIVATE'' = ''Private''"
  "capitalize ''low'' = ''Low''" "capitalize ''medium'' = ''Medium''"
  "capitalize ''high'' = ''High''" "capitalize ''private'' = ''Private''"
  "capitalize ''secret'' = ''Secret''"
  by (simp_all add: capitalize_def toUpperCase_def toLowerCase_def)

lemma default_accessor_shadowed:
  assumes "[] \<notin> set PR" and "p \<in> set PR"
  shows "invoke PR sel (capitalize p) (constructor PR sk (Some [p])) =
           callSelection sel (Val p) (constructor PR sk (Some [p]))"
proof -
  let ?d = "constructor PR sk (Some [p])"
  from assms have "p \<noteq> []" by auto
  have a: "accessors ?d = fold installAccessors (permissionRanking ?d) Map.empty"
    by simp
  have "invoke PR sel (capitalize p) ?d = thisCall PR sel (Val p) ?d"
    by (rule invoke_generated(2) [OF a]) simp_all
  also have "\<dots> = callSelection sel (Val p) ?d"
    using \<open>p \<noteq> []\<close> assms(1) by (intro thisCall_plain [OF a]) simp_all
  finally show ?thesis .
qed

subsection \<open>What the slots of the table can hold\<close>

lemma fold_slots:
  assumes "\<forall>k. Q (t0 k)" and "\<And>x t. \<forall>k. Q (t k) \<Longrightarrow> \<forall>k. Q (f x t k)"
  shows "\<forall>k. Q (fold f xs t0 k)"
  using assms(1)
proof (induction xs arbitrary: t0)
  case Nil
  then show ?case by simp
next
  case (Cons x xs)
  from Cons.IH [OF assms(2) [OF Cons.prems]] show ?case by simp
qed

lemma priv_always_slots:
  assumes "\<forall>k. Q (delegate d k)"
  shows "\<forall>k. Q (delegate (priv_always d) k)"
  using assms by (simp add: delegate_priv_always currentSlot_def)

lemma priv_restrictAtOrAbove_slots:
  assumes "\<forall>k. Q (delegate d k)" and "Q Null" and "Q fm"
  shows "\<forall>k. Q (delegate (priv_restrictAtOrAbove fm d) k)"
proof (cases "restrictAtOrAbove d")
  case (Val c)
  have "\<forall>k. Q (fold (\<lambda>i tbl. if i < c then tbl(permissionRanking d ! i := Null)
                             else tbl(permissionRanking d ! i := fm))
                [0..<length (permissionRanking d)] (delegate d) k)"
    by (rule fold_slots [where Q = Q and ?t0.0 = "delegate d"]) (simp_all add: assms)
  with Val show ?thesis by (simp add: priv_restrictAtOrAbove_def)
qed (use assms(1) in \<open>simp_all add: priv_restrictAtOrAbove_def\<close>)

lemma priv_restrictTo_slots:
  assumes "\<forall>k. Q (delegate d k)" and "Q Null" and "Q fm"
  shows "\<forall>k. Q (delegate (priv_restrictTo fm d) k)"
proof (cases "restrict d")
  case (Val r)
  have "\<forall>k. Q (fold (\<lambda>i tbl. if i \<noteq> r then tbl(permissionRanking d ! i := Null)
                             else tbl(permissionRanking d ! i := fm))
                [0..<length (permissionRanking d)] (delegate d) k)"
    by (rule fold_slots [where Q = Q and ?t0.0 = "delegate d"]) (simp_all add: assms)
  with Val show ?thesis by (simp add: priv_restrictTo_def)
qed (use assms(1) in \<open>simp_all add: priv_restrictTo_def\<close>)

lemma checkAndReset_slots:
  assumes "\<forall>k. Q (delegate d k)" and "Q Null" and "Q fm"
  shows "\<forall>k. Q (delegate (priv_checkAndReset fm d) k)"
  using priv_restrictTo_slots [OF priv_restrictAtOrAbove_slots [OF priv_always_slots
        [OF assms(1)] assms(2,3)] assms(2,3)]
  by simp

lemma assignNew_then_reset_slots:
  assumes "\<forall>k. Q (delegate d k)" and "Q Null" and "Q (Val (FieldMapper (nextIdent d) kd))"
  shows "\<forall>k. Q (delegate (priv_checkAndReset (currentSlot (assignNew kd d)) (assignNew kd d)) k)"
  by (rule checkAndReset_slots) (use assms in simp_all)

lemma subTransformAssign_slots:
  assumes "subTransformAssign tk pl d = Inr d1" and "\<forall>k. Q (delegate d k)"
    and "\<And>i l. Q (Val (FieldMapper i (SubTransformFieldMapper tk l)))"
  shows "\<forall>k. Q (delegate d1 k)"
proof (cases "truthy pl")
  case True
  with assms(1) have "delegate d1 =
      fold (\<lambda>curLvl tbl. tbl(curLvl := Val (FieldMapper (nextIdent d)
              (SubTransformFieldMapper tk (propertyKey pl)))))
        (permissionRanking d) (delegate d)"
    by (auto simp: subTransformAssign_def Let_def split: if_splits)
  then show ?thesis
    using assms(2,3) by (simp add: fold_const_update)
next
  case False
  obtain tbl' n' where fo:
    "fold (assignOwnLvl tk) (permissionRanking d) (delegate d, nextIdent d) = (tbl', n')"
    by (cases "fold (assignOwnLvl tk) (permissionRanking d) (delegate d, nextIdent d)")
  from False assms(1) have t: "delegate d1 = tbl'"
    by (auto simp: subTransformAssign_cascade fo)
  show ?thesis
  proof
    fix k
    show "Q (delegate d1 k)"
    proof (cases "k \<in> set (permissionRanking d)")
      case True
      from cascade_fold_slot [OF fo True] assms(3) show ?thesis by (auto simp: t)
    next
      case False
      from cascade_fold_other [OF fo False] assms(2) show ?thesis by (simp add: t)
    qed
  qed
qed

lemma perform_passthrough_free:
  assumes "perform PR c d = Inr d'" and "c \<noteq> Passthrough"
    and "\<forall>k. \<not> isPassthroughSlot (delegate d k)"
  shows "\<forall>k. \<not> isPassthroughSlot (delegate d' k)"
proof (cases c)
  case Always
  with assms show ?thesis by auto
next
  case (When p)
  with assms callSelection_static(5) [OF thisCall_Inr, of PR SelWhen p d d'] show ?thesis by simp
next
  case (AtOrAbove p)
  with assms callSelection_static(5) [OF thisCall_Inr, of PR SelAtOrAbove p d d']
  show ?thesis by simp
next
  case (RestrictTo p)
  with assms callSelection_static(5) [OF thisCall_Inr, of PR SelRestrictTo p d d']
  show ?thesis by simp
next
  case Passthrough
  with assms(2) show ?thesis by simp
next
  case (BuildWith b)
  with assms(1) have "d' = priv_checkAndReset (currentSlot (assignNew (CustomFieldMapper b) d))
      (assignNew (CustomFieldMapper b) d)"
    by (simp add: buildWith_def Let_def)
  then show ?thesis
    using assignNew_then_reset_slots [of "\<lambda>v. \<not> isPassthroughSlot v" d "CustomFieldMapper b"]
      assms(3) by simp
next
  case (SubTransform tk pl)
  with assms(1) obtain d1 where d1: "subTransformAssign tk pl d = Inr d1"
    "d' = priv_checkAndReset (currentSlot d1) d1"
    by (auto simp: subTransform_def split: sum.splits)
  have "\<forall>k. \<not> isPassthroughSlot (delegate d1 k)"
    by (rule subTransformAssign_slots [OF d1(1) assms(3)]) simp
  then show ?thesis
    unfolding d1(2)
    by (intro checkAndReset_slots) (simp_all add: currentSlot_def)
next
  case AsList
  with assms show ?thesis by auto
next
  case (Accessor sel suffix)
  with assms(1) obtain sel' p' where "callSelection sel' p' d = Inr d'"
    using invoke_Inr by fastforce
  from callSelection_static(5) [OF this] assms(3) show ?thesis by simp
qed

lemma chain_passthrough_free:
  "chain PR cs d = Inr d' \<Longrightarrow> Passthrough \<notin> set cs \<Longrightarrow>
   \<forall>k. \<not> isPassthroughSlot (delegate d k) \<Longrightarrow> \<forall>k. \<not> isPassthroughSlot (delegate d' k)"
proof (induction cs arbitrary: d)
  case Nil
  then show ?case by simp
next
  case (Cons c cs)
  then obtain d1 where d1: "perform PR c d = Inr d1" "chain PR cs d1 = Inr d'"
    by (auto split: sum.splits)
  from Cons.prems(2) have n: "c \<noteq> Passthrough" "Passthrough \<notin> set cs" by auto
  from Cons.IH [OF d1(2) n(2) perform_passthrough_free [OF d1(1) n(1) Cons.prems(3)]]
  show ?case .
qed

lemma assign_plain_table:
  assumes "\<forall>c. restrictAtOrAbove d \<noteq> Val c" and "\<forall>r. restrict d \<noteq> Val r"
    and "alwaysFlag d \<noteq> Val True"
  shows "delegate (passthrough d) =
           (delegate d)(propertyKey (curPermissionLvl d) :=
              Val (FieldMapper (nextIdent d) PassthroughFieldMapper))"
    and "delegate (buildWith b d) =
           (delegate d)(propertyKey (curPermissionLvl d) :=
              Val (FieldMapper (nextIdent d) (CustomFieldMapper b)))"
  using assms
  by (simp_all add: passthrough_def buildWith_def Let_def delegate_priv_restrictTo_unset
      delegate_priv_restrictAtOrAbove_unset priv_always_def assignNew_def currentSlot_def)

lemma lowMediumHigh_accessors:
  "accessors lowMediumHigh = fold installAccessors (permissionRanking lowMediumHigh) Map.empty"
  by (simp add: lowMediumHigh_def)

lemma lowMediumHigh_thisCall:
  "thisCall exampleDefaultRanking sel p lowMediumHigh = callSelection sel p lowMediumHigh"
  by (rule thisCall_plain [OF lowMediumHigh_accessors])
    (simp_all add: exampleDefaultRanking_def)

section \<open>Transform resolution\<close>



section \<open>Broadcast\<close>

text \<open>
  Claim C2, as stated: for every delegate and every token of its ranking, after
  \<^verbatim>\<open>always()\<close> and \<^verbatim>\<open>passthrough()\<close> the table holds a pass-through mapper at that token.
  It fails on a delegate whose sole index is set, because \<^verbatim>\<open>_restrictTo\<close> runs after the
  broadcast: in the chain \<^verbatim>\<open>restrictTo('medium').always().passthrough()\<close> the level \<^verbatim>\<open>low\<close>
  ends denied; and since an assignment leaves the index set, so it does when
  \<^verbatim>\<open>always().passthrough()\<close> follows an earlier \<^verbatim>\<open>restrictTo('medium').passthrough()\<close>.
\<close>

theorem always_then_passthrough_counterexample:
  "\<exists>d1. restrictTo (Val ''medium'') lowMediumHigh = Inr d1 \<and>
     ''low'' \<in> set (permissionRanking d1) \<and>
     delegate (passthrough (always d1)) ''low'' = Null \<and>
     delegate (passthrough (always (passthrough d1))) ''low'' = Null"
  by (simp add: restrictTo_def passthrough_def always_def assignNew_def currentSlot_def
      priv_checkAndReset_def priv_always_def priv_restrictAtOrAbove_def priv_restrictTo_def)

text \<open>
  Claim C2, amended: for every delegate on which neither the cutoff index nor the sole
  index is set, and every token \<open>P\<close> of its ranking, after \<^verbatim>\<open>always()\<close> and
  \<^verbatim>\<open>passthrough()\<close> the table holds at \<open>P\<close> the pass-through mapper that the call created
  (one instance, the same at every level), and the current level is \<^verbatim>\<open>null\<close>.
\<close>

theorem always_then_passthrough:
  assumes "\<forall>c. restrictAtOrAbove d \<noteq> Val c" and "\<forall>r. restrict d \<noteq> Val r"
    and "P \<in> set (permissionRanking d)"
  shows "delegate (passthrough (always d)) P =
           Val (FieldMapper (nextIdent d) PassthroughFieldMapper) \<and>
         curPermissionLvl (passthrough (always d)) = Null"
proof -
  define d2 where "d2 = assignNew PassthroughFieldMapper (always d)"
  have f: "restrictAtOrAbove d2 = restrictAtOrAbove d" "restrict d2 = restrict d"
    "permissionRanking d2 = permissionRanking d" "alwaysFlag d2 = Val True"
    "currentSlot d2 = Val (FieldMapper (nextIdent d) PassthroughFieldMapper)"
    by (simp_all add: d2_def always_def)
  have p: "passthrough (always d) =
             priv_checkAndReset (Val (FieldMapper (nextIdent d) PassthroughFieldMapper)) d2"
    using f(5) by (simp add: passthrough_def Let_def d2_def)
  have "delegate (passthrough (always d)) = delegate (priv_always d2)"
    unfolding p using assms(1,2) by (intro checkAndReset_plain) (simp_all add: f)
  then show ?thesis
    using assms(3) by (simp add: delegate_priv_always f p)
qed

theorem always_then_passthrough_witness:
  "(\<forall>c. restrictAtOrAbove lowMediumHigh \<noteq> Val c) \<and>
   (\<forall>r. restrict lowMediumHigh \<noteq> Val r) \<and>
   ''high'' \<in> set (permissionRanking lowMediumHigh) \<and>
   delegate (passthrough (always lowMediumHigh)) ''high'' =
     Val (FieldMapper 0 PassthroughFieldMapper) \<and>
   curPermissionLvl (passthrough (always lowMediumHigh)) = Null"
  using always_then_passthrough [of lowMediumHigh "''high''"] by simp

section \<open>Sole restriction\<close>



section \<open>Cutoff restriction\<close>

text \<open>
  Claim C4. For every delegate (with a ranking of unique tokens) whose cutoff index is set
  when an assignment runs: \<^verbatim>\<open>_restrictAtOrAbove\<close> forces the slot of every ranking index
  below the cutoff to denied and the slot of every other index to the mapper it is given,
  which is the mapper just assigned. Unless a sole index is set as well (its rule runs
  afterwards), this is the table that \<^verbatim>\<open>_checkAndReset\<close> and so the assignment call
  leave; for \<^verbatim>\<open>passthrough()\<close> the mapper is the new pass-through mapper.
\<close>

theorem cutoff_narrowing:
  assumes "distinct (permissionRanking d)" and "restrictAtOrAbove d = Val c"
    and "i < length (permissionRanking d)"
  shows "delegate (priv_restrictAtOrAbove fm d) (permissionRanking d ! i) =
           (if i < c then Null else fm) \<and>
         ((\<forall>r. restrict d \<noteq> Val r) \<longrightarrow>
            delegate (priv_checkAndReset fm d) (permissionRanking d ! i) =
              (if i < c then Null else fm)) \<and>
         ((\<forall>r. restrict d \<noteq> Val r) \<longrightarrow>
            delegate (passthrough d) (permissionRanking d ! i) =
              (if i < c then Null else Val (FieldMapper (nextIdent d) PassthroughFieldMapper)))"
proof -
  define d1 where "d1 = assignNew PassthroughFieldMapper d"
  have f: "distinct (permissionRanking d1)" "restrictAtOrAbove d1 = Val c"
    "i < length (permissionRanking d1)" "restrict d1 = restrict d"
    "permissionRanking d1 = permissionRanking d"
    using assms by (simp_all add: d1_def)
  have p: "passthrough d =
             priv_checkAndReset (Val (FieldMapper (nextIdent d) PassthroughFieldMapper)) d1"
    by (simp add: passthrough_def Let_def d1_def)
  show ?thesis
    using delegate_priv_restrictAtOrAbove_set [OF assms, of fm]
      checkAndReset_cutoff [OF assms(1,2) _ assms(3), of fm]
      checkAndReset_cutoff [OF f(1,2) _ f(3),
        of "Val (FieldMapper (nextIdent d) PassthroughFieldMapper)"]
    by (simp add: p f(4,5))
qed

theorem cutoff_narrowing_witness:
  "\<exists>d1. atOrAbove (Val ''medium'') lowMediumHigh = Inr d1 \<and>
     distinct (permissionRanking d1) \<and> restrictAtOrAbove d1 = Val 1 \<and>
     (\<forall>r. restrict d1 \<noteq> Val r) \<and>
     delegate (passthrough d1) ''low'' = Null \<and>
     delegate (passthrough d1) ''medium'' = Val (FieldMapper 0 PassthroughFieldMapper) \<and>
     delegate (passthrough d1) ''high'' = Val (FieldMapper 0 PassthroughFieldMapper)"
proof -
  define d1 where
    "d1 = lowMediumHigh\<lparr>restrictAtOrAbove := Val 1, curPermissionLvl := Val ''medium''\<rparr>"
  have a: "atOrAbove (Val ''medium'') lowMediumHigh = Inr d1"
    by (simp add: atOrAbove_def d1_def)
  have h: "distinct (permissionRanking d1)" "restrictAtOrAbove d1 = Val 1"
    "\<forall>r. restrict d1 \<noteq> Val r" "permissionRanking d1 = [''low'', ''medium'', ''high'']"
    "nextIdent d1 = 0"
    by (simp_all add: d1_def)
  from cutoff_narrowing [OF h(1,2), of 0] cutoff_narrowing [OF h(1,2), of 1]
    cutoff_narrowing [OF h(1,2), of 2] h(3)
  have "delegate (passthrough d1) ''low'' = Null"
    "delegate (passthrough d1) ''medium'' = Val (FieldMapper 0 PassthroughFieldMapper)"
    "delegate (passthrough d1) ''high'' = Val (FieldMapper 0 PassthroughFieldMapper)"
    by (simp_all add: h(4,5))
  with a h show ?thesis by simp
qed

section \<open>Sub-transform assignment\<close>

text \<open>
  Claim C5, as stated: \<^verbatim>\<open>subTransform(ref, explicitLevel)\<close> with \<^verbatim>\<open>explicitLevel\<close> present in
  the ranking writes one mapper bound to \<^verbatim>\<open>explicitLevel\<close> into every slot. The source
  tests \<^verbatim>\<open>if (permissionLvl)\<close>, and the empty string is falsy: on the ranking
  \<^verbatim>\<open>['', 'x']\<close> the call \<^verbatim>\<open>subTransform(ref, '')\<close> takes the other branch and writes a
  different mapper, bound to \<^verbatim>\<open>'x'\<close>, into the slot of \<^verbatim>\<open>'x'\<close>. And when the call returns,
  narrowing has run over what was written: after \<^verbatim>\<open>restrictTo('medium')\<close>, the call
  \<^verbatim>\<open>subTransform(ref, 'low')\<close> leaves \<^verbatim>\<open>low\<close> and \<^verbatim>\<open>high\<close> denied.
\<close>

theorem subTransform_writes_counterexample:
  "[] \<in> set (permissionRanking emptyTokenDelegate) \<and>
   (\<exists>d2. subTransform () (Val []) emptyTokenDelegate = Inr d2 \<and>
      delegate d2 [] = Val (FieldMapper 0 (SubTransformFieldMapper () [])) \<and>
      delegate d2 ''x'' = Val (FieldMapper 1 (SubTransformFieldMapper () ''x''))) \<and>
   ''low'' \<in> set (permissionRanking lowMediumHigh) \<and>
   (\<exists>d0 d3. restrictTo (Val ''medium'') lowMediumHigh = Inr d0 \<and>
      subTransform () (Val ''low'') d0 = Inr d3 \<and>
      delegate d3 ''low'' = Null \<and>
      delegate d3 ''medium'' = Val (FieldMapper 0 (SubTransformFieldMapper () ''low'')) \<and>
      delegate d3 ''high'' = Null)"
  by (simp add: emptyTokenDelegate_def subTransform_def subTransformAssign_cascade
      subTransformAssign_def Let_def restrictTo_def currentSlot_def
      priv_checkAndReset_def priv_always_def priv_restrictAtOrAbove_def priv_restrictTo_def)

text \<open>
  Claim C5, amended. With a non-empty \<^verbatim>\<open>explicitLevel\<close> that is present in the ranking,
  \<^verbatim>\<open>subTransform\<close> writes one mapper bound to \<^verbatim>\<open>explicitLevel\<close>, the same instance, into
  the slot of every level and clears the broadcast flag whatever it was; with a non-empty
  \<^verbatim>\<open>explicitLevel\<close> that is absent from the ranking it fails. Without \<^verbatim>\<open>explicitLevel\<close>
  it writes, for every level \<open>L\<close> of the ranking, a newly made mapper bound to \<open>L\<close> into
  the slot of \<open>L\<close>, and different levels get different instances. These are the writes
  before narrowing (\<open>subTransformAssign\<close>); they are the table the call leaves when
  neither the cutoff index nor the sole index is set.
\<close>

theorem subTransform_writes:
  "(lvl \<noteq> [] \<and> lvl \<in> set (permissionRanking d) \<longrightarrow>
      (\<exists>d1 d2. subTransformAssign tk (Val lvl) d = Inr d1 \<and> alwaysFlag d1 = Null \<and>
         (\<forall>L \<in> set (permissionRanking d).
            delegate d1 L = Val (FieldMapper (nextIdent d) (SubTransformFieldMapper tk lvl))) \<and>
         subTransform tk (Val lvl) d = Inr d2 \<and> alwaysFlag d2 = Null \<and>
         ((\<forall>c. restrictAtOrAbove d \<noteq> Val c) \<and> (\<forall>r. restrict d \<noteq> Val r) \<longrightarrow>
            delegate d2 = delegate d1))) \<and>
   (lvl \<noteq> [] \<and> lvl \<notin> set (permissionRanking d) \<longrightarrow>
      subTransform tk (Val lvl) d = Inl InvalidPermissionLvlProvided) \<and>
   (\<exists>d1 d2. subTransformAssign tk Undefined d = Inr d1 \<and> alwaysFlag d1 = Null \<and>
      (\<forall>L \<in> set (permissionRanking d). \<exists>i. nextIdent d \<le> i \<and>
         delegate d1 L = Val (FieldMapper i (SubTransformFieldMapper tk L))) \<and>
      (\<forall>L \<in> set (permissionRanking d). \<forall>L' \<in> set (permissionRanking d). \<forall>m m'.
         L \<noteq> L' \<and> delegate d1 L = Val m \<and> delegate d1 L' = Val m' \<longrightarrow> ident m \<noteq> ident m') \<and>
      subTransform tk Undefined d = Inr d2 \<and> alwaysFlag d2 = Null \<and>
      ((\<forall>c. restrictAtOrAbove d \<noteq> Val c) \<and> (\<forall>r. restrict d \<noteq> Val r) \<longrightarrow>
         delegate d2 = delegate d1))"
proof (intro conjI impI)
  assume a: "lvl \<noteq> [] \<and> lvl \<in> set (permissionRanking d)"
  define d1 where "d1 = d\<lparr>delegate := (\<lambda>k. if k \<in> set (permissionRanking d)
                              then Val (FieldMapper (nextIdent d) (SubTransformFieldMapper tk lvl))
                              else delegate d k),
            nextIdent := Suc (nextIdent d), alwaysFlag := Null\<rparr>"
  have e: "subTransformAssign tk (Val lvl) d = Inr d1"
    using a by (simp add: subTransformAssign_explicit d1_def)
  have f: "alwaysFlag d1 = Null" "restrictAtOrAbove d1 = restrictAtOrAbove d"
    "restrict d1 = restrict d"
    "\<forall>L \<in> set (permissionRanking d).
       delegate d1 L = Val (FieldMapper (nextIdent d) (SubTransformFieldMapper tk lvl))"
    by (simp_all add: d1_def)
  have "delegate (priv_checkAndReset (currentSlot d1) d1) = delegate d1"
    if "(\<forall>c. restrictAtOrAbove d \<noteq> Val c) \<and> (\<forall>r. restrict d \<noteq> Val r)"
    using that f(1,2,3) by (intro checkAndReset_no_narrowing) simp_all
  with e f subTransform_of_assign [OF e]
  show "\<exists>d1 d2. subTransformAssign tk (Val lvl) d = Inr d1 \<and> alwaysFlag d1 = Null \<and>
         (\<forall>L \<in> set (permissionRanking d).
            delegate d1 L = Val (FieldMapper (nextIdent d) (SubTransformFieldMapper tk lvl))) \<and>
         subTransform tk (Val lvl) d = Inr d2 \<and> alwaysFlag d2 = Null \<and>
         ((\<forall>c. restrictAtOrAbove d \<noteq> Val c) \<and> (\<forall>r. restrict d \<noteq> Val r) \<longrightarrow>
            delegate d2 = delegate d1)"
    by (intro exI [of _ d1] exI [of _ "priv_checkAndReset (currentSlot d1) d1"]) simp
next
  assume "lvl \<noteq> [] \<and> lvl \<notin> set (permissionRanking d)"
  then show "subTransform tk (Val lvl) d = Inl InvalidPermissionLvlProvided"
    by (simp add: subTransform_def subTransformAssign_invalid)
next
  obtain tbl' n' where fo:
    "fold (assignOwnLvl tk) (permissionRanking d) (delegate d, nextIdent d) = (tbl', n')"
    by (cases "fold (assignOwnLvl tk) (permissionRanking d) (delegate d, nextIdent d)")
  define d1 where "d1 = d\<lparr>delegate := tbl', nextIdent := n', alwaysFlag := Null\<rparr>"
  have e: "subTransformAssign tk Undefined d = Inr d1"
    by (simp add: subTransformAssign_cascade fo d1_def)
  have f: "alwaysFlag d1 = Null" "restrictAtOrAbove d1 = restrictAtOrAbove d"
    "restrict d1 = restrict d" "delegate d1 = tbl'"
    by (simp_all add: d1_def)
  have s: "\<forall>L \<in> set (permissionRanking d). \<exists>i. nextIdent d \<le> i \<and>
         delegate d1 L = Val (FieldMapper i (SubTransformFieldMapper tk L))"
    using cascade_fold_slot [OF fo] by (auto simp: f(4))
  have i: "\<forall>L \<in> set (permissionRanking d). \<forall>L' \<in> set (permissionRanking d). \<forall>m m'.
         L \<noteq> L' \<and> delegate d1 L = Val m \<and> delegate d1 L' = Val m' \<longrightarrow> ident m \<noteq> ident m'"
    using cascade_fold_distinct [OF fo] by (auto simp: f(4))
  have "delegate (priv_checkAndReset (currentSlot d1) d1) = delegate d1"
    if "(\<forall>c. restrictAtOrAbove d \<noteq> Val c) \<and> (\<forall>r. restrict d \<noteq> Val r)"
    using that f(1,2,3) by (intro checkAndReset_no_narrowing) simp_all
  with e f(1) s i subTransform_of_assign [OF e]
  show "\<exists>d1 d2. subTransformAssign tk Undefined d = Inr d1 \<and> alwaysFlag d1 = Null \<and>
      (\<forall>L \<in> set (permissionRanking d). \<exists>i. nextIdent d \<le> i \<and>
         delegate d1 L = Val (FieldMapper i (SubTransformFieldMapper tk L))) \<and>
      (\<forall>L \<in> set (permissionRanking d). \<forall>L' \<in> set (permissionRanking d). \<forall>m m'.
         L \<noteq> L' \<and> delegate d1 L = Val m \<and> delegate d1 L' = Val m' \<longrightarrow> ident m \<noteq> ident m') \<and>
      subTransform tk Undefined d = Inr d2 \<and> alwaysFlag d2 = Null \<and>
      ((\<forall>c. restrictAtOrAbove d \<noteq> Val c) \<and> (\<forall>r. restrict d \<noteq> Val r) \<longrightarrow>
         delegate d2 = delegate d1)"
    by (intro exI [of _ d1] exI [of _ "priv_checkAndReset (currentSlot d1) d1"]) simp
qed

theorem subTransform_writes_witness:
  "''medium'' \<noteq> [] \<and> ''medium'' \<in> set (permissionRanking lowMediumHigh) \<and>
   (\<forall>c. restrictAtOrAbove lowMediumHigh \<noteq> Val c) \<and> (\<forall>r. restrict lowMediumHigh \<noteq> Val r) \<and>
   (\<exists>d2. subTransform () (Val ''medium'') lowMediumHigh = Inr d2 \<and> alwaysFlag d2 = Null \<and>
      delegate d2 ''low'' = Val (FieldMapper 0 (SubTransformFieldMapper () ''medium'')) \<and>
      delegate d2 ''medium'' = Val (FieldMapper 0 (SubTransformFieldMapper () ''medium'')) \<and>
      delegate d2 ''high'' = Val (FieldMapper 0 (SubTransformFieldMapper () ''medium''))) \<and>
   ''bogus'' \<noteq> [] \<and> ''bogus'' \<notin> set (permissionRanking lowMediumHigh) \<and>
   subTransform () (Val ''bogus'') lowMediumHigh = Inl InvalidPermissionLvlProvided \<and>
   (\<exists>d2. subTransform () Undefined lowMediumHigh = Inr d2 \<and> alwaysFlag d2 = Null \<and>
      delegate d2 ''low'' = Val (FieldMapper 0 (SubTransformFieldMapper () ''low'')) \<and>
      delegate d2 ''medium'' = Val (FieldMapper 1 (SubTransformFieldMapper () ''medium'')) \<and>
      delegate d2 ''high'' = Val (FieldMapper 2 (SubTransformFieldMapper () ''high'')))"
proof -
  have h: "''medium'' \<noteq> [] \<and> ''medium'' \<in> set (permissionRanking lowMediumHigh)"
    "(\<forall>c. restrictAtOrAbove lowMediumHigh \<noteq> Val c) \<and> (\<forall>r. restrict lowMediumHigh \<noteq> Val r)"
    "''bogus'' \<noteq> [] \<and> ''bogus'' \<notin> set (permissionRanking lowMediumHigh)"
    by simp_all
  note t = subTransform_writes [of "''medium''" lowMediumHigh "()"]
  note u = subTransform_writes [of "''bogus''" lowMediumHigh "()"]
  from t h(1) obtain d1 d2 where a:
    "subTransformAssign () (Val ''medium'') lowMediumHigh = Inr d1"
    "\<forall>L \<in> set (permissionRanking lowMediumHigh).
       delegate d1 L = Val (FieldMapper (nextIdent lowMediumHigh) (SubTransformFieldMapper () ''medium''))"
    "subTransform () (Val ''medium'') lowMediumHigh = Inr d2" "alwaysFlag d2 = Null"
    "(\<forall>c. restrictAtOrAbove lowMediumHigh \<noteq> Val c) \<and> (\<forall>r. restrict lowMediumHigh \<noteq> Val r) \<longrightarrow>
       delegate d2 = delegate d1"
    by blast
  from a(2,5) h(2) have a': "delegate d2 ''low'' = Val (FieldMapper 0 (SubTransformFieldMapper () ''medium''))"
    "delegate d2 ''medium'' = Val (FieldMapper 0 (SubTransformFieldMapper () ''medium''))"
    "delegate d2 ''high'' = Val (FieldMapper 0 (SubTransformFieldMapper () ''medium''))"
    by simp_all
  from u h(3) have b: "subTransform () (Val ''bogus'') lowMediumHigh = Inl InvalidPermissionLvlProvided"
    by blast
  from t obtain e1 e2 where c:
    "subTransformAssign () Undefined lowMediumHigh = Inr e1"
    "subTransform () Undefined lowMediumHigh = Inr e2" "alwaysFlag e2 = Null"
    "(\<forall>c. restrictAtOrAbove lowMediumHigh \<noteq> Val c) \<and> (\<forall>r. restrict lowMediumHigh \<noteq> Val r) \<longrightarrow>
       delegate e2 = delegate e1"
    by blast
  from c(1,4) h(2) have c': "delegate e2 ''low'' = Val (FieldMapper 0 (SubTransformFieldMapper () ''low''))"
    "delegate e2 ''medium'' = Val (FieldMapper 1 (SubTransformFieldMapper () ''medium''))"
    "delegate e2 ''high'' = Val (FieldMapper 2 (SubTransformFieldMapper () ''high''))"
    by (auto simp: subTransform_lowMediumHigh_cascade)
  from h a(3,4) a' b c(2,3) c' show ?thesis by simp
qed

section \<open>Reset after an assignment\<close>



section \<open>The states of a slot when transform runs\<close>




section \<open>Default accessors on a custom ranking\<close>

text \<open>
  Claim C8, as stated: on a delegate constructed with a custom ranking, calling any
  accessor of the default ranking raises. An accessor that the constructor generates on
  the instance for a token of the custom ranking takes precedence over the one of the same
  name on the prototype: with the default token \<^verbatim>\<open>PRIVATE\<close> and the custom ranking
  \<^verbatim>\<open>['private', 'secret']\<close>, \<^verbatim>\<open>whenPrivate()\<close> selects the level \<^verbatim>\<open>private\<close> and raises
  nothing.
\<close>

theorem default_accessor_on_custom_ranking_counterexample:
  "''PRIVATE'' \<in> set exampleDefaultRanking \<and>
   defaultPermissionRanking privateSecret = False \<and>
   accessorName SelWhen ''PRIVATE'' = ''whenPrivate'' \<and>
   invoke exampleDefaultRanking SelWhen ''Private'' privateSecret
     = Inr (when' (Val ''private'') privateSecret)"
proof -
  have a: "accessors privateSecret = fold installAccessors (permissionRanking privateSecret) Map.empty"
    by (simp add: privateSecret_def)
  have r: "permissionRanking privateSecret = [''private'', ''secret'']"
    by (simp add: privateSecret_def)
  have "invoke exampleDefaultRanking SelWhen (capitalize ''private'') privateSecret =
          thisCall exampleDefaultRanking SelWhen (Val ''private'') privateSecret"
    by (rule invoke_generated(2) [OF a]) (simp_all add: r)
  moreover have "thisCall exampleDefaultRanking SelWhen (Val ''private'') privateSecret =
          callSelection SelWhen (Val ''private'') privateSecret"
    by (rule thisCall_plain [OF a]) (simp_all add: r exampleDefaultRanking_def)
  ultimately show ?thesis
    by (simp add: exampleDefaultRanking_def privateSecret_def accessorName_def)
qed

text \<open>
  Claim C8, amended. On every delegate constructed with a custom ranking, the accessor
  that the prototype holds for a token of the default ranking raises the error
  \<^verbatim>\<open>Cannot use overwritten default permission ranking API\<close> when it runs; and calling it
  by its name runs it, and so raises, unless a token of the custom ranking generates an
  accessor of the same name on the instance.
\<close>

theorem default_accessor_on_custom_ranking:
  assumes "chain PR cs (constructor PR sk (Some r)) = Inr d" and "p \<in> set PR"
  shows "defaultAccessor PR sel p d = Inl CannotUseOverwrittenDefaultApi \<and>
         ((\<forall>q \<in> set r. capitalize q \<noteq> capitalize p) \<longrightarrow>
            invoke PR sel (capitalize p) d = Inl CannotUseOverwrittenDefaultApi)"
proof -
  from chain_static [OF assms(1)]
  have s: "permissionRanking d = r" "\<not> defaultPermissionRanking d"
    "accessors d = fold installAccessors (permissionRanking d) Map.empty"
    by simp_all
  from s(2) have "defaultAccessor PR sel p d = Inl CannotUseOverwrittenDefaultApi"
    by (simp add: defaultAccessor_def)
  moreover have "invoke PR sel (capitalize p) d = Inl CannotUseOverwrittenDefaultApi"
    if "\<forall>q \<in> set r. capitalize q \<noteq> capitalize p"
    using invoke_default_guard [OF s(3,2) assms(2)] that s(1) by simp
  ultimately show ?thesis by simp
qed

theorem default_accessor_on_custom_ranking_witness:
  "chain exampleDefaultRanking [Always, Passthrough]
     (constructor exampleDefaultRanking ''woop'' (Some [''low'', ''medium'', ''high'']))
     = Inr (passthrough (always lowMediumHigh)) \<and>
   ''PRIVATE'' \<in> set exampleDefaultRanking \<and>
   capitalize ''low'' \<noteq> capitalize ''PRIVATE'' \<and>
   capitalize ''medium'' \<noteq> capitalize ''PRIVATE'' \<and>
   capitalize ''high'' \<noteq> capitalize ''PRIVATE'' \<and>
   defaultAccessor exampleDefaultRanking SelWhen ''PRIVATE'' (passthrough (always lowMediumHigh))
     = Inl CannotUseOverwrittenDefaultApi \<and>
   invoke exampleDefaultRanking SelWhen ''Private'' (passthrough (always lowMediumHigh))
     = Inl CannotUseOverwrittenDefaultApi"
proof -
  have c: "chain exampleDefaultRanking [Always, Passthrough]
     (constructor exampleDefaultRanking ''woop'' (Some [''low'', ''medium'', ''high'']))
     = Inr (passthrough (always lowMediumHigh))"
    by (simp add: lowMediumHigh_def)
  have p: "''PRIVATE'' \<in> set exampleDefaultRanking"
    by (simp add: exampleDefaultRanking_def)
  have q: "\<forall>q \<in> set [''low'', ''medium'', ''high'']. capitalize q \<noteq> capitalize ''PRIVATE''"
    by simp
  from default_accessor_on_custom_ranking [OF c p, of SelWhen] c p q
  show ?thesis by simp
qed

section \<open>Generated accessors\<close>




section \<open>Assignment without a selection\<close>




end
